theory Spec2Isabelle
  imports Complex_Main "HOL-Library.AList"
begin

section \<open>Values of the host language\<close>

text \<open>
  A JavaScript \<open>number\<close> is an IEEE double: a finite value, one of the two infinities, or
  NaN. Only the comparison with zero and the NaN test are used by the cache, so finite
  values are kept as reals.
\<close>

datatype number = NaN | Infinity | NegInfinity | Num real

fun le_zero :: "number \<Rightarrow> bool" where
  "le_zero NaN = False"
| "le_zero Infinity = False"
| "le_zero NegInfinity = True"
| "le_zero (Num r) = (r \<le> 0)"

fun Number_isNaN :: "number \<Rightarrow> bool" where
  "Number_isNaN NaN = True"
| "Number_isNaN Infinity = False"
| "Number_isNaN NegInfinity = False"
| "Number_isNaN (Num r) = False"

text \<open>
  The values that \<open>JSON.parse\<close> can produce. A string is a list of code units; the cache
  only concatenates strings, measures their length and takes suffixes.
\<close>

datatype json =
    JNull
  | JBool bool
  | JNumber number
  | JString string
  | JArray "json list"
  | JObject "(string \<times> json) list"

text \<open>The operand test of \<open>!value\<close> on a decoded value.\<close>

fun falsy :: "json \<Rightarrow> bool" where
  "falsy JNull = True"
| "falsy (JBool b) = (\<not> b)"
| "falsy (JNumber n) = (n = NaN \<or> n = Num 0)"
| "falsy (JString s) = (s = [])"
| "falsy (JArray xs) = False"
| "falsy (JObject fs) = False"

section \<open>Errors\<close>

text \<open>
  \<open>cause\<close> is what a library call throws. \<open>Error e\<close> is \<open>new Error(err)\<close> of a catch block,
  \<open>Thrown e\<close> a library exception that no catch block of the cache intercepts.
\<close>

datatype cause = ClientClosedError | SyntaxError | TypeError

datatype error = UNEXPECTED_TTL | SCHEMA_CHECK | Error cause | Thrown cause

section \<open>External collaborators\<close>

text \<open>
  The codec \<open>JSON.parse\<close> / \<open>JSON.stringify\<close> belongs to the host language. It is a
  parameter of every operation that encodes or decodes.
\<close>

record JSON =
  parse :: "string \<Rightarrow> cause + json"
  stringify :: "json \<Rightarrow> cause + string"

text \<open>
  Modelled from the spec: the schema validator (\<open>TypeCompiler.Compile\<close> of the
  \<open>typebox\<close> library), which is not part of the repository. The source types the schema
  as \<open>TObject\<close>; it is kept as the constraint it puts on a value. The compiled validator
  of an object schema accepts nothing but objects (arrays are objects of the host
  language; whether one passes is left to the constraint), in particular never \<open>null\<close>
  and never a primitive.
\<close>

type_synonym TObject = "json \<Rightarrow> bool"

fun Compile :: "TObject \<Rightarrow> json \<Rightarrow> bool" where
  "Compile sch (JObject fs) = sch (JObject fs)"
| "Compile sch (JArray xs) = sch (JArray xs)"
| "Compile sch v = False"

text \<open>
  Modelled from the spec: the store collaborator of section 6 (the \<open>redis\<close> client and the
  server behind it), which is not part of the repository. The server holds an association
  list from physical key to transport text; \<open>online\<close> says whether requests reach it, and
  \<open>pattern_match\<close> is its server-side pattern match. Expiry is accepted and not modelled:
  no time passes between two operations.
\<close>

record store =
  online :: bool
  pattern_match :: "string \<Rightarrow> string \<Rightarrow> bool"
  db :: "(string \<times> string) list"

definition client_get :: "store \<Rightarrow> string \<Rightarrow> cause + string option" where
  "client_get s key = (if online s then Inr (map_of (db s) key) else Inl ClientClosedError)"

definition client_set :: "store \<Rightarrow> string \<Rightarrow> string \<Rightarrow> number \<Rightarrow> cause + store" where
  "client_set s key val ex =
     (if online s then Inr (s\<lparr>db := AList.update key val (db s)\<rparr>) else Inl ClientClosedError)"

definition client_exists :: "store \<Rightarrow> string \<Rightarrow> cause + nat" where
  "client_exists s key =
     (if online s then Inr (if key \<in> set (map fst (db s)) then 1 else 0)
      else Inl ClientClosedError)"

definition client_del :: "store \<Rightarrow> string list \<Rightarrow> cause + nat \<times> store" where
  "client_del s ks =
     (if online s
      then Inr (length (filter (\<lambda>k. k \<in> set (map fst (db s))) (remdups ks)),
                s\<lparr>db := filter (\<lambda>e. fst e \<notin> set ks) (db s)\<rparr>)
      else Inl ClientClosedError)"

definition client_keys :: "store \<Rightarrow> string \<Rightarrow> cause + string list" where
  "client_keys s pattern =
     (if online s then Inr (filter (pattern_match s pattern) (map fst (db s)))
      else Inl ClientClosedError)"

definition client_scanIterator :: "store \<Rightarrow> string \<Rightarrow> number \<Rightarrow> cause + string list" where
  "client_scanIterator s pattern count =
     (if online s then Inr (filter (pattern_match s pattern) (map fst (db s)))
      else Inl ClientClosedError)"

text \<open>
  \<open>createClient\<close> makes a handle from a copy of the connection options. The handles made so
  far are the only trace the call leaves, so they are threaded through \<open>new\<close>.
\<close>

type_synonym RedisClientOptions = "(string \<times> string) list"

datatype RedisClientType = Client RedisClientOptions

definition createClient :: "RedisClientOptions \<Rightarrow> RedisClientType" where
  "createClient redisOpts = Client redisOpts"

section \<open>The cache\<close>

text \<open>
  The class \<open>RedisCache\<close> of \<open>src/main.ts\<close>. Each method takes the state of the store and,
  where it writes, returns the new one; an exception is the left summand of the result.
  The getters \<open>prefix\<close>, \<open>ttl\<close> and \<open>scanCount\<close> read the options and are written as such.
  \<open>set\<close> and \<open>size\<close> are named \<open>set_cache\<close> and \<open>size_cache\<close>, and the method
  \<open>[Symbol.asyncIterator]\<close> is \<open>asyncIterator\<close>, with its loop body in \<open>iterate\<close>.
\<close>

record RedisCacheOptions =
  prefix :: string
  scanCount :: number
  schema :: TObject
  ttl :: number

record RedisCache =
  opts :: RedisCacheOptions
  client :: RedisClientType
  schemaCompiler :: "json \<Rightarrow> bool"

definition constructor :: "RedisCacheOptions \<Rightarrow> RedisClientType \<Rightarrow> error + RedisCache" where
  "constructor os cl =
     (if le_zero (ttl os) \<or> Number_isNaN (ttl os) then Inl UNEXPECTED_TTL
      else Inr \<lparr>opts = os, client = cl, schemaCompiler = Compile (schema os)\<rparr>)"

definition new ::
  "RedisCacheOptions \<Rightarrow> RedisClientOptions \<Rightarrow> RedisClientType list
     \<Rightarrow> (error + RedisCache) \<times> RedisClientType list" where
  "new os redisOpts handles =
     (let cl = createClient redisOpts
      in (constructor os cl, handles @ [cl]))"

definition get :: "JSON \<Rightarrow> RedisCache \<Rightarrow> string \<Rightarrow> store \<Rightarrow> error + json option" where
  "get J c ident s =
     (let key = prefix (opts c) @ ident
      in case client_get s key of
           Inl err \<Rightarrow> Inl (Error err)
         | Inr None \<Rightarrow> Inr None
         | Inr (Some data) \<Rightarrow>
             if data = [] then Inr None
             else (case parse J data of
                     Inl err \<Rightarrow> Inl (Error err)
                   | Inr val \<Rightarrow>
                       if val = JNull then Inr None
                       else if \<not> schemaCompiler c val then Inl SCHEMA_CHECK
                       else Inr (Some val)))"

definition set_cache :: "JSON \<Rightarrow> RedisCache \<Rightarrow> string \<Rightarrow> json \<Rightarrow> store \<Rightarrow> error + store" where
  "set_cache J c ident val s =
     (let key = prefix (opts c) @ ident
      in case stringify J val of
           Inl err \<Rightarrow> Inl (Error err)
         | Inr txt \<Rightarrow>
             (case client_set s key txt (ttl (opts c)) of
                Inl err \<Rightarrow> Inl (Error err)
              | Inr s' \<Rightarrow> Inr s'))"

definition has :: "RedisCache \<Rightarrow> string \<Rightarrow> store \<Rightarrow> error + bool" where
  "has c ident s =
     (let key = prefix (opts c) @ ident
      in case client_exists s key of
           Inl err \<Rightarrow> Inl (Thrown err)
         | Inr n \<Rightarrow> Inr (n = 1))"

definition delete :: "RedisCache \<Rightarrow> string \<Rightarrow> store \<Rightarrow> error + bool \<times> store" where
  "delete c ident s =
     (let key = prefix (opts c) @ ident
      in case client_del s [key] of
           Inl err \<Rightarrow> Inl (Error err)
         | Inr (n, s') \<Rightarrow> Inr (True, s'))"

text \<open>
  A generator run to its end: what it yielded, and the exception that ended it, if any.
\<close>

definition keys :: "RedisCache \<Rightarrow> store \<Rightarrow> string list \<times> error option" where
  "keys c s =
     (let pattern = prefix (opts c) @ ''*''; len = length (prefix (opts c))
      in case client_scanIterator s pattern (scanCount (opts c)) of
           Inl err \<Rightarrow> ([], Some (Thrown err))
         | Inr ks \<Rightarrow> (map (drop len) ks, None))"

definition size_cache :: "RedisCache \<Rightarrow> store \<Rightarrow> error + nat" where
  "size_cache c s =
     (let pattern = prefix (opts c) @ ''*''
      in case client_keys s pattern of
           Inl err \<Rightarrow> Inl (Error err)
         | Inr ks \<Rightarrow> Inr (length ks))"

text \<open>
  The combined iteration also writes diagnostics with \<open>console.warn\<close>; they are kept
  beside the yielded pairs.
\<close>

datatype notice = COULD_NOT_FIND string | SCHEMA_CHECK_notice string

record iteration =
  yielded :: "(string \<times> json) list"
  notices :: "notice list"
  thrown :: "error option"

definition warn :: "notice \<Rightarrow> iteration \<Rightarrow> iteration" where
  "warn n r = r\<lparr>notices := n # notices r\<rparr>"

definition yield :: "string \<times> json \<Rightarrow> iteration \<Rightarrow> iteration" where
  "yield p r = r\<lparr>yielded := p # yielded r\<rparr>"

fun iterate :: "JSON \<Rightarrow> RedisCache \<Rightarrow> store \<Rightarrow> string list \<Rightarrow> iteration" where
  "iterate J c s [] = \<lparr>yielded = [], notices = [], thrown = None\<rparr>"
| "iterate J c s (key # rest) =
     (case get J c key s of
        Inl err \<Rightarrow> \<lparr>yielded = [], notices = [], thrown = Some err\<rparr>
      | Inr None \<Rightarrow> warn (COULD_NOT_FIND key) (iterate J c s rest)
      | Inr (Some val) \<Rightarrow>
          if falsy val then warn (COULD_NOT_FIND key) (iterate J c s rest)
          else if \<not> schemaCompiler c val then warn (SCHEMA_CHECK_notice key) (iterate J c s rest)
          else yield (drop (length (prefix (opts c))) key, val) (iterate J c s rest))"

definition asyncIterator :: "JSON \<Rightarrow> RedisCache \<Rightarrow> store \<Rightarrow> iteration" where
  "asyncIterator J c s =
     (let pattern = prefix (opts c) @ ''*''
      in case client_scanIterator s pattern (scanCount (opts c)) of
           Inl err \<Rightarrow> \<lparr>yielded = [], notices = [], thrown = Some (Thrown err)\<rparr>
         | Inr ks \<Rightarrow> iterate J c s ks)"

section \<open>Programs and data used in the examples\<close>

text \<open>
  A caller that issues \<open>set\<close> for each pair of a list in turn and stops at the first failure.
  The store reached so far is returned in either case.
\<close>

fun set_all ::
  "JSON \<Rightarrow> RedisCache \<Rightarrow> (string \<times> json) list \<Rightarrow> store \<Rightarrow> store \<times> error option" where
  "set_all J c [] s = (s, None)"
| "set_all J c ((ident, val) # rest) s =
     (case set_cache J c ident val s of
        Inl err \<Rightarrow> (s, Some err)
      | Inr s' \<Rightarrow> set_all J c rest s')"

text \<open>
  The scenario of the specification: prefix \<open>user:\<close>, ttl 60, a schema that requires a
  string \<open>name\<close> and an integer \<open>age\<close>.
\<close>

definition ana :: json where
  "ana = JObject [(''name'', JString ''Ana''), (''age'', JNumber (Num 30))]"

definition ana_text :: string where
  \<open>ana_text = ''{"name":"Ana","age":30}''\<close>

fun person :: TObject where
  "person (JObject fs) =
     (case (map_of fs ''name'', map_of fs ''age'') of
        (Some (JString n), Some (JNumber (Num a))) \<Rightarrow> a \<in> \<int>
      | _ \<Rightarrow> False)"
| "person v = False"

text \<open>
  An excerpt of the codec, on the few texts and values the examples use; everything else
  is outside the excerpt and reported as a failure.
\<close>

definition sample_JSON :: JSON where
  "sample_JSON =
     \<lparr>parse = (\<lambda>t. if t = ana_text then Inr ana
                    else if t = ''5'' then Inr (JNumber (Num 5))
                    else if t = ''null'' then Inr JNull
                    else Inl SyntaxError),
      stringify = (\<lambda>v. if v = ana then Inr ana_text
                    else if v = JNumber (Num 5) then Inr ''5''
                    else if v = JNull then Inr ''null''
                    else Inl TypeError)\<rparr>"

text \<open>A pattern match that reads a final \<open>*\<close> as "any suffix" and everything else literally.\<close>

definition literal_match :: "string \<Rightarrow> string \<Rightarrow> bool" where
  "literal_match pattern key =
     (pattern \<noteq> [] \<and> last pattern = CHR ''*''
      \<and> take (length pattern - 1) key = butlast pattern)"

definition user_opts :: RedisCacheOptions where
  "user_opts = \<lparr>prefix = ''user:'', scanCount = Num 100, schema = person, ttl = Num 60\<rparr>"

definition user_cache :: RedisCache where
  "user_cache = \<lparr>opts = user_opts, client = Client [], schemaCompiler = Compile person\<rparr>"

definition admin_cache :: RedisCache where
  "admin_cache =
     \<lparr>opts = user_opts\<lparr>prefix := ''user:admin:''\<rparr>, client = Client [],
      schemaCompiler = Compile person\<rparr>"

definition order_cache :: RedisCache where
  "order_cache =
     \<lparr>opts = user_opts\<lparr>prefix := ''order:''\<rparr>, client = Client [],
      schemaCompiler = Compile person\<rparr>"

definition store0 :: store where
  "store0 = \<lparr>online = True, pattern_match = literal_match, db = []\<rparr>"

text \<open>
  Modelled from the spec: the server-side pattern match of section 6 in the glob syntax of
  the Redis server (\<open>KEYS\<close>, \<open>SCAN ... MATCH\<close>), which is not part of the repository. \<open>*\<close>
  matches any run of characters, \<open>?\<close> any one character, \<open>[...]\<close> one character of a
  class (single characters, ranges \<open>a-z\<close>, negated by a leading \<open>^\<close>), and a backslash
  makes the next character literal. \<open>class_scan\<close> reads a class up to its closing bracket
  and returns whether the character was in it and the rest of the pattern.
\<close>

definition in_range :: "char \<Rightarrow> char \<Rightarrow> char \<Rightarrow> bool" where
  "in_range a b c =
     (let lo = min (of_char a :: nat) (of_char b); hi = max (of_char a :: nat) (of_char b)
      in lo \<le> of_char c \<and> of_char c \<le> hi)"

fun class_scan :: "bool \<Rightarrow> string \<Rightarrow> char \<Rightarrow> bool \<times> string" where
  "class_scan m [] c = (m, [])"
| "class_scan m [x] c = (if x = CHR '']'' then (m, []) else (m \<or> x = c, []))"
| "class_scan m (x # y # ys) c =
     (if x = CHR 0x5C then class_scan (m \<or> y = c) ys c
      else if x = CHR '']'' then (m, y # ys)
      else if y = CHR ''-'' then
        (case ys of
           [] \<Rightarrow> class_scan (m \<or> x = c) (y # ys) c
         | e # rest \<Rightarrow> class_scan (m \<or> in_range x e c) rest c)
      else class_scan (m \<or> x = c) (y # ys) c)"

fun glob_match :: "string \<Rightarrow> string \<Rightarrow> bool" where
  "glob_match [] s = (s = [])"
| "glob_match (p # ps) [] = (p = CHR ''*'' \<and> glob_match ps [])"
| "glob_match (p # ps) (c # cs) =
     (if p = CHR ''*'' then glob_match ps (c # cs) \<or> glob_match (p # ps) cs
      else if p = CHR ''?'' then glob_match ps cs
      else if p = CHR ''['' then
        (case ps of
           CHR ''^'' # body \<Rightarrow>
             \<not> fst (class_scan False body c) \<and> glob_match (snd (class_scan False body c)) cs
         | _ \<Rightarrow> fst (class_scan False ps c) \<and> glob_match (snd (class_scan False ps c)) cs)
      else if p = CHR 0x5C \<and> ps \<noteq> [] then hd ps = c \<and> glob_match (tl ps) cs
      else p = c \<and> glob_match ps cs)"

text \<open>A string without any character that the glob syntax reads specially.\<close>

definition plain :: "string \<Rightarrow> bool" where
  "plain p =
     (\<forall>x \<in> set p. x \<noteq> CHR ''*'' \<and> x \<noteq> CHR ''?'' \<and> x \<noteq> CHR ''['' \<and> x \<noteq> CHR 0x5C)"

definition glob_store :: store where
  "glob_store = \<lparr>online = True, pattern_match = glob_match, db = []\<rparr>"

definition bracket_cache :: RedisCache where
  "bracket_cache =
     \<lparr>opts = user_opts\<lparr>prefix := ''user[1]:''\<rparr>, client = Client [],
      schemaCompiler = Compile person\<rparr>"

section \<open>Auxiliary facts\<close>

lemma Compile_not_null: "Compile sch v \<Longrightarrow> v \<noteq> JNull"
  by (cases v) auto

lemma set_cache_Inr:
  "set_cache J c ident v s = Inr s' \<Longrightarrow>
     \<exists>enc. stringify J v = Inr enc \<and> online s \<and>
            s' = s\<lparr>db := AList.update (prefix (opts c) @ ident) enc (db s)\<rparr>"
  by (auto simp add: set_cache_def client_set_def split: sum.splits if_splits)

lemma set_cache_online:
  "online s \<Longrightarrow> stringify J v = Inr enc \<Longrightarrow>
     set_cache J c ident v s = Inr (s\<lparr>db := AList.update (prefix (opts c) @ ident) enc (db s)\<rparr>)"
  by (simp add: set_cache_def client_set_def)

text \<open>
  Setting ids whose physical keys are all new appends exactly those keys to the key list
  of the store, in the order of the calls.
\<close>

lemma set_all_fresh_keys:
  assumes "online s"
    and "\<forall>v \<in> set (map snd ivs). \<exists>enc. stringify J v = Inr enc"
    and "distinct (map fst ivs)"
    and "\<forall>i \<in> set (map fst ivs). prefix (opts c) @ i \<notin> set (map fst (db s))"
  shows "\<exists>s'. set_all J c ivs s = (s', None) \<and> online s' \<and> pattern_match s' = pattern_match s
           \<and> map fst (db s') = map fst (db s) @ map (\<lambda>i. prefix (opts c) @ i) (map fst ivs)"
  using assms
proof (induction ivs arbitrary: s)
  case Nil
  then show ?case by simp
next
  case (Cons iv ivs)
  obtain i v where iv: "iv = (i, v)" by (cases iv)
  from Cons.prems(2) iv obtain enc where enc: "stringify J v = Inr enc" by auto
  let ?k = "prefix (opts c) @ i"
  let ?s1 = "s\<lparr>db := AList.update ?k enc (db s)\<rparr>"
  have step: "set_cache J c i v s = Inr ?s1"
    using Cons.prems(1) enc by (rule set_cache_online)
  have fresh: "?k \<notin> set (map fst (db s))"
    using Cons.prems(4) iv by simp
  have keys1: "map fst (db ?s1) = map fst (db s) @ [?k]"
    using fresh by (simp add: AList.update_keys)
  have "\<exists>s'. set_all J c ivs ?s1 = (s', None) \<and> online s' \<and> pattern_match s' = pattern_match ?s1
           \<and> map fst (db s') = map fst (db ?s1) @ map (\<lambda>i. prefix (opts c) @ i) (map fst ivs)"
  proof (rule Cons.IH)
    show "online ?s1" using Cons.prems(1) by simp
    show "\<forall>v \<in> set (map snd ivs). \<exists>enc. stringify J v = Inr enc" using Cons.prems(2) by simp
    show "distinct (map fst ivs)" using Cons.prems(3) by simp
    show "\<forall>j \<in> set (map fst ivs). prefix (opts c) @ j \<notin> set (map fst (db ?s1))"
    proof
      fix j assume j: "j \<in> set (map fst ivs)"
      then have "j \<noteq> i" using Cons.prems(3) iv by auto
      moreover have "prefix (opts c) @ j \<notin> set (map fst (db s))"
        using Cons.prems(4) j by auto
      ultimately show "prefix (opts c) @ j \<notin> set (map fst (db ?s1))"
        by (simp add: AList.dom_update)
    qed
  qed
  then obtain s' where s': "set_all J c ivs ?s1 = (s', None)" "online s'"
      "pattern_match s' = pattern_match ?s1"
      "map fst (db s') = map fst (db ?s1) @ map (\<lambda>i. prefix (opts c) @ i) (map fst ivs)"
    by blast
  have "set_all J c (iv # ivs) s = (s', None)"
    using step s'(1) iv by simp
  moreover have "map fst (db s') = map fst (db s) @ map (\<lambda>i. prefix (opts c) @ i) (map fst (iv # ivs))"
    using s'(4) keys1 iv by simp
  ultimately show ?case using s'(2,3) by simp
qed

text \<open>
  A key of the namespace \<open>pa\<close> never starts with \<open>pb\<close> when neither prefix starts with the
  other.
\<close>

lemma other_namespace_key:
  assumes "take (length pa) pb \<noteq> pa" and "take (length pb) pa \<noteq> pb"
  shows "take (length pb) (pa @ x) \<noteq> pb"
proof
  assume eq: "take (length pb) (pa @ x) = pb"
  show False
  proof (cases "length pb \<le> length pa")
    case True
    then have "take (length pb) pa = pb" using eq by simp
    with assms(2) show False by simp
  next
    case False
    then have "pa @ take (length pb - length pa) x = pb" using eq by simp
    then have "take (length pa) pb = pa" by (metis append_eq_conv_conj)
    with assms(1) show False by simp
  qed
qed

lemma update_foreign_keys:
  "\<not> P k \<Longrightarrow> filter P (map fst (AList.update k v al)) = filter P (map fst al)"
  by (simp add: AList.update_keys)

text \<open>
  A run of \<open>set\<close> calls whose keys all lie outside a class \<open>P\<close> of keys leaves the store as
  it was on \<open>P\<close>: the same values, the same keys in the same order.
\<close>

lemma set_all_foreign:
  assumes "\<forall>i. \<not> P (prefix (opts a) @ i)"
  shows "online (fst (set_all J a ivs s)) = online s
       \<and> pattern_match (fst (set_all J a ivs s)) = pattern_match s
       \<and> (\<forall>k. P k \<longrightarrow> map_of (db (fst (set_all J a ivs s))) k = map_of (db s) k)
       \<and> filter P (map fst (db (fst (set_all J a ivs s)))) = filter P (map fst (db s))"
proof (induction ivs arbitrary: s)
  case Nil
  then show ?case by simp
next
  case (Cons iv ivs)
  obtain i v where iv: "iv = (i, v)" by (cases iv)
  show ?case
  proof (cases "set_cache J a i v s")
    case (Inl e)
    then show ?thesis using iv by simp
  next
    case (Inr s1)
    then obtain enc where s1: "s1 = s\<lparr>db := AList.update (prefix (opts a) @ i) enc (db s)\<rparr>"
      using set_cache_Inr by blast
    have np: "\<not> P (prefix (opts a) @ i)" using assms by simp
    have a: "online s1 = online s" "pattern_match s1 = pattern_match s"
      by (simp_all add: s1)
    have b: "\<forall>k. P k \<longrightarrow> map_of (db s1) k = map_of (db s) k"
      using np by (auto simp add: s1 AList.update_conv')
    have c: "filter P (map fst (db s1)) = filter P (map fst (db s))"
      using np by (simp add: s1 update_foreign_keys)
    have "set_all J a (iv # ivs) s = set_all J a ivs s1"
      using Inr iv by simp
    then show ?thesis using Cons.IH [of s1] a b c by simp
  qed
qed

lemma filter_through:
  assumes "\<forall>k. Q k \<longrightarrow> P k" and "filter P xs = filter P ys"
  shows "filter Q xs = filter Q ys"
proof -
  have "filter Q zs = filter Q (filter P zs)" for zs
    using assms(1) by (induction zs) auto
  then show ?thesis using assms(2) by metis
qed

text \<open>
  Every observer of a cache reads the store only through the keys that start with the
  prefix of the cache, provided the pattern of the cache matches such keys only.
\<close>

lemma observers_agree:
  assumes on: "online s' = online s" and pm: "pattern_match s' = pattern_match s"
    and vals: "\<forall>k. take (length (prefix (opts b))) k = prefix (opts b)
                 \<longrightarrow> map_of (db s') k = map_of (db s) k"
    and ks: "filter (\<lambda>k. take (length (prefix (opts b))) k = prefix (opts b)) (map fst (db s'))
           = filter (\<lambda>k. take (length (prefix (opts b))) k = prefix (opts b)) (map fst (db s))"
    and lit: "\<forall>k. pattern_match s (prefix (opts b) @ ''*'') k
                 \<longrightarrow> take (length (prefix (opts b))) k = prefix (opts b)"
  shows "get J b i s' = get J b i s" and "has b i s' = has b i s" and "keys b s' = keys b s"
    and "size_cache b s' = size_cache b s" and "asyncIterator J b s' = asyncIterator J b s"
proof -
  let ?p = "prefix (opts b)"
  have v: "map_of (db s') (?p @ j) = map_of (db s) (?p @ j)" for j
    using vals by simp
  have cg: "client_get s' (?p @ j) = client_get s (?p @ j)" for j
    by (simp add: client_get_def on v)
  show g: "get J b j s' = get J b j s" for j
    by (simp add: get_def cg)
  have "(?p @ i \<in> set (map fst (db s'))) = (?p @ i \<in> set (map fst (db s)))"
    using v [of i] by (metis map_of_eq_None_iff set_map)
  then show "has b i s' = has b i s"
    by (simp add: has_def client_exists_def on)
  have sc: "filter (pattern_match s' (?p @ ''*'')) (map fst (db s'))
          = filter (pattern_match s (?p @ ''*'')) (map fst (db s))"
    unfolding pm using lit ks by (rule filter_through)
  show "keys b s' = keys b s"
    unfolding keys_def client_scanIterator_def Let_def sc on ..
  show "size_cache b s' = size_cache b s"
    unfolding size_cache_def client_keys_def Let_def sc on ..
  have it: "iterate J b s' xs = iterate J b s xs" for xs
    by (induction xs) (simp_all add: g split: sum.splits option.splits)
  show "asyncIterator J b s' = asyncIterator J b s"
    unfolding asyncIterator_def client_scanIterator_def Let_def sc on it ..
qed

lemma literal_match_star:
  "literal_match (p @ ''*'') k = (take (length p) k = p)"
  by (simp add: literal_match_def)

text \<open>
  Against a pattern made of a plain prefix and a final \<open>*\<close>, the glob match accepts exactly
  the keys that start with the prefix.
\<close>

lemma glob_star: "glob_match ''*'' k"
  by (induction k) simp_all

lemma glob_plain_prefix:
  "plain p \<Longrightarrow> glob_match (p @ ''*'') k = (take (length p) k = p)"
proof (induction p arbitrary: k)
  case Nil
  then show ?case by (simp add: glob_star)
next
  case (Cons x xs)
  then have px: "x \<noteq> CHR ''*''" "x \<noteq> CHR ''?''" "x \<noteq> CHR ''[''" "x \<noteq> CHR 0x5C"
    and pxs: "plain xs"
    by (simp_all add: plain_def)
  show ?case
  proof (cases k)
    case Nil
    then show ?thesis using px by simp
  next
    case (Cons c cs)
    then show ?thesis using px Cons.IH [OF pxs, of cs] by auto
  qed
qed

section \<open>The claims\<close>

text \<open>
  Claim C1 (the combined iteration fetches each value under the physical key exactly as
  the store cursor returned it, not under a re-prefixed key). The iteration passes the
  scanned physical key to \<open>get\<close>, and \<open>get\<close> prepends the prefix to its argument, so the key
  read from the store is the prefix followed by the physical key. In the scenario of the
  specification, after \<open>set("42", ...)\<close> the entry is returned by \<open>get("42")\<close> and listed by
  \<open>keys()\<close>, and the iteration yields nothing: it looks under \<open>user:user:42\<close>, finds no
  value and reports \<open>COULD_NOT_FIND "user:42"\<close>.
\<close>

theorem asyncIterator_fetches_reprefixed_key:
  "set_cache sample_JSON user_cache ''42'' ana store0 = Inr (store0\<lparr>db := [(''user:42'', ana_text)]\<rparr>)
   \<and> get sample_JSON user_cache ''42'' (store0\<lparr>db := [(''user:42'', ana_text)]\<rparr>) = Inr (Some ana)
   \<and> keys user_cache (store0\<lparr>db := [(''user:42'', ana_text)]\<rparr>) = ([''42''], None)
   \<and> asyncIterator sample_JSON user_cache (store0\<lparr>db := [(''user:42'', ana_text)]\<rparr>)
       = \<lparr>yielded = [], notices = [COULD_NOT_FIND ''user:42''], thrown = None\<rparr>"
proof -
  let ?s = "store0\<lparr>db := [(''user:42'', ana_text)]\<rparr>"
  have a: "set_cache sample_JSON user_cache ''42'' ana store0 = Inr ?s"
    by (simp add: set_cache_def client_set_def sample_JSON_def user_cache_def user_opts_def
        store0_def)
  have b: "get sample_JSON user_cache ''42'' ?s = Inr (Some ana)"
    by (simp add: get_def client_get_def sample_JSON_def user_cache_def user_opts_def
        store0_def ana_text_def ana_def)
  have c: "keys user_cache ?s = ([''42''], None)"
    by (simp add: keys_def client_scanIterator_def literal_match_def user_cache_def
        user_opts_def store0_def)
  have d: "asyncIterator sample_JSON user_cache ?s
       = \<lparr>yielded = [], notices = [COULD_NOT_FIND ''user:42''], thrown = None\<rparr>"
    by (simp add: asyncIterator_def client_scanIterator_def literal_match_def get_def
        client_get_def warn_def user_cache_def user_opts_def store0_def)
  show ?thesis using a b c d by simp
qed

text \<open>
  Claim C2 (a value that fails schema validation during the combined iteration is skipped
  and the iteration never ends with a schema-validation error). The value is fetched with
  \<open>get\<close>, which raises \<open>SCHEMA_CHECK\<close> itself; the iteration has no handler around that
  call, so the exception ends it before its own check-warn-continue is reached. Here two
  \<open>set\<close> calls of the same cache fill the store, the second with a value outside the
  schema under the id \<open>user:42\<close>, and the iteration ends with \<open>SCHEMA_CHECK\<close>, having yielded
  nothing.
\<close>

theorem asyncIterator_aborts_on_schema_violation:
  "set_all sample_JSON user_cache [(''42'', ana), (''user:42'', JNumber (Num 5))] store0
     = (store0\<lparr>db := [(''user:42'', ana_text), (''user:user:42'', ''5'')]\<rparr>, None)
   \<and> asyncIterator sample_JSON user_cache
        (store0\<lparr>db := [(''user:42'', ana_text), (''user:user:42'', ''5'')]\<rparr>)
       = \<lparr>yielded = [], notices = [], thrown = Some SCHEMA_CHECK\<rparr>"
proof -
  let ?s = "store0\<lparr>db := [(''user:42'', ana_text), (''user:user:42'', ''5'')]\<rparr>"
  have a: "set_all sample_JSON user_cache [(''42'', ana), (''user:42'', JNumber (Num 5))] store0
     = (?s, None)"
    by (simp add: set_cache_def client_set_def sample_JSON_def user_cache_def user_opts_def
        store0_def ana_def)
  have b: "asyncIterator sample_JSON user_cache ?s
       = \<lparr>yielded = [], notices = [], thrown = Some SCHEMA_CHECK\<rparr>"
    by (simp add: asyncIterator_def client_scanIterator_def literal_match_def get_def
        client_get_def sample_JSON_def user_cache_def user_opts_def store0_def ana_text_def)
  show ?thesis using a b by simp
qed

text \<open>
  Claim C3 (round trip): for a cache made by the constructor, a reachable store, any id
  and any value that is JSON-serializable (the codec encodes it to a text, which is never
  the empty text, and decodes that text back to the value) and passes the compiled
  validator, \<open>set(id, value)\<close> succeeds and \<open>get(id)\<close> on the resulting store returns the
  value.
\<close>

theorem set_get_roundtrip:
  assumes "constructor os cl = Inr c" and "online s"
    and "stringify J v = Inr enc" and "enc \<noteq> []" and "parse J enc = Inr v"
    and "schemaCompiler c v"
  shows "\<exists>s'. set_cache J c ident v s = Inr s' \<and> get J c ident s' = Inr (Some v)"
proof -
  from assms(1) have chk: "schemaCompiler c = Compile (schema os)"
    by (auto simp add: constructor_def split: if_splits)
  with assms(6) have nn: "v \<noteq> JNull"
    by (simp add: Compile_not_null)
  let ?s' = "s\<lparr>db := AList.update (prefix (opts c) @ ident) enc (db s)\<rparr>"
  have "set_cache J c ident v s = Inr ?s'"
    using assms(2,3) by (simp add: set_cache_def client_set_def)
  moreover have "get J c ident ?s' = Inr (Some v)"
    using assms(2,4,5,6) nn by (simp add: get_def client_get_def AList.update_conv')
  ultimately show ?thesis by blast
qed

text \<open>
  Claim C3, witness: the scenario of the specification, \<open>set("42", {name: "Ana", age: 30})\<close>
  under the prefix \<open>user:\<close> on an empty store.
\<close>

theorem set_get_roundtrip_witness:
  "constructor user_opts (Client []) = Inr user_cache \<and> online store0
   \<and> stringify sample_JSON ana = Inr ana_text \<and> ana_text \<noteq> []
   \<and> parse sample_JSON ana_text = Inr ana \<and> schemaCompiler user_cache ana
   \<and> (\<exists>s'. set_cache sample_JSON user_cache ''42'' ana store0 = Inr s'
           \<and> get sample_JSON user_cache ''42'' s' = Inr (Some ana))"
proof -
  have h1: "constructor user_opts (Client []) = Inr user_cache"
    by (simp add: constructor_def user_opts_def user_cache_def)
  have h2: "online store0" by (simp add: store0_def)
  have h3: "stringify sample_JSON ana = Inr ana_text" by (simp add: sample_JSON_def)
  have h4: "ana_text \<noteq> []" by (simp add: ana_text_def)
  have h5: "parse sample_JSON ana_text = Inr ana" by (simp add: sample_JSON_def)
  have h6: "schemaCompiler user_cache ana" by (simp add: user_cache_def ana_def)
  show ?thesis
    using h1 h2 h3 h4 h5 h6 set_get_roundtrip [OF h1 h2 h3 h4 h5 h6, of "''42''"] by simp
qed

text \<open>
  Claim C4, counterexample: the prefixes \<open>user:\<close> and \<open>user:admin:\<close> are different, and the
  entry that the first cache sets under the id \<open>admin:7\<close> is seen by the second cache
  through \<open>get("7")\<close>, \<open>has("7")\<close> and \<open>keys()\<close>.
\<close>

theorem isolation_counterexample:
  "prefix (opts user_cache) \<noteq> prefix (opts admin_cache)
   \<and> fst (set_all sample_JSON user_cache [(''admin:7'', ana)] store0)
       = store0\<lparr>db := [(''user:admin:7'', ana_text)]\<rparr>
   \<and> get sample_JSON admin_cache ''7'' store0 = Inr None
   \<and> get sample_JSON admin_cache ''7'' (store0\<lparr>db := [(''user:admin:7'', ana_text)]\<rparr>) = Inr (Some ana)
   \<and> has admin_cache ''7'' store0 = Inr False
   \<and> has admin_cache ''7'' (store0\<lparr>db := [(''user:admin:7'', ana_text)]\<rparr>) = Inr True
   \<and> keys admin_cache store0 = ([], None)
   \<and> keys admin_cache (store0\<lparr>db := [(''user:admin:7'', ana_text)]\<rparr>) = ([''7''], None)"
proof -
  let ?s = "store0\<lparr>db := [(''user:admin:7'', ana_text)]\<rparr>"
  have a: "prefix (opts user_cache) \<noteq> prefix (opts admin_cache)"
    by (simp add: user_cache_def admin_cache_def user_opts_def)
  have b: "fst (set_all sample_JSON user_cache [(''admin:7'', ana)] store0) = ?s"
    by (simp add: set_cache_def client_set_def sample_JSON_def user_cache_def user_opts_def
        store0_def)
  have c: "get sample_JSON admin_cache ''7'' store0 = Inr None"
    by (simp add: get_def client_get_def store0_def)
  have d: "get sample_JSON admin_cache ''7'' ?s = Inr (Some ana)"
    by (simp add: get_def client_get_def sample_JSON_def admin_cache_def user_opts_def
        store0_def ana_text_def ana_def)
  have e: "has admin_cache ''7'' store0 = Inr False"
    by (simp add: has_def client_exists_def store0_def)
  have f: "has admin_cache ''7'' ?s = Inr True"
    by (simp add: has_def client_exists_def admin_cache_def user_opts_def store0_def)
  have g: "keys admin_cache store0 = ([], None)"
    by (simp add: keys_def client_scanIterator_def store0_def)
  have h: "keys admin_cache ?s = ([''7''], None)"
    by (simp add: keys_def client_scanIterator_def literal_match_def admin_cache_def
        user_opts_def store0_def)
  show ?thesis using a b c d e f g h by simp
qed

text \<open>
  Claim C4 as amended (namespace isolation): when neither prefix is an initial segment of
  the other, and the store matches the pattern of the observing cache against keys that
  start with its prefix only, no sequence of \<open>set\<close> calls on the cache \<open>a\<close> changes what
  the cache \<open>b\<close> observes: \<open>get\<close> and \<open>has\<close> on any id, \<open>keys\<close>, \<open>size\<close> and the combined
  iteration give the same result before and after.
\<close>

theorem isolation_incomparable_prefixes:
  assumes "take (length (prefix (opts a))) (prefix (opts b)) \<noteq> prefix (opts a)"
    and "take (length (prefix (opts b))) (prefix (opts a)) \<noteq> prefix (opts b)"
    and "\<forall>k. pattern_match s (prefix (opts b) @ ''*'') k
            \<longrightarrow> take (length (prefix (opts b))) k = prefix (opts b)"
  shows "get J b i (fst (set_all J a ivs s)) = get J b i s
       \<and> has b i (fst (set_all J a ivs s)) = has b i s
       \<and> keys b (fst (set_all J a ivs s)) = keys b s
       \<and> size_cache b (fst (set_all J a ivs s)) = size_cache b s
       \<and> asyncIterator J b (fst (set_all J a ivs s)) = asyncIterator J b s"
proof -
  let ?P = "\<lambda>k. take (length (prefix (opts b))) k = prefix (opts b)"
  have "\<forall>i. \<not> ?P (prefix (opts a) @ i)"
    using other_namespace_key [OF assms(1) assms(2)] by simp
  from set_all_foreign [of ?P a J ivs s, OF this]
  have f: "online (fst (set_all J a ivs s)) = online s"
      "pattern_match (fst (set_all J a ivs s)) = pattern_match s"
      "\<forall>k. ?P k \<longrightarrow> map_of (db (fst (set_all J a ivs s))) k = map_of (db s) k"
      "filter ?P (map fst (db (fst (set_all J a ivs s)))) = filter ?P (map fst (db s))"
    by blast+
  show ?thesis
    using observers_agree [OF f(1) f(2) f(3) f(4) assms(3)] by blast
qed

text \<open>
  Claim C4, witness: the prefixes \<open>user:\<close> and \<open>order:\<close> over a store with the literal
  pattern match.
\<close>

theorem isolation_incomparable_prefixes_witness:
  "take (length (prefix (opts user_cache))) (prefix (opts order_cache)) \<noteq> prefix (opts user_cache)
   \<and> take (length (prefix (opts order_cache))) (prefix (opts user_cache)) \<noteq> prefix (opts order_cache)
   \<and> (\<forall>k. pattern_match store0 (prefix (opts order_cache) @ ''*'') k
            = (take (length (prefix (opts order_cache))) k = prefix (opts order_cache)))
   \<and> get sample_JSON order_cache ''42'' (fst (set_all sample_JSON user_cache [(''42'', ana)] store0))
       = get sample_JSON order_cache ''42'' store0
   \<and> has order_cache ''42'' (fst (set_all sample_JSON user_cache [(''42'', ana)] store0))
       = has order_cache ''42'' store0
   \<and> keys order_cache (fst (set_all sample_JSON user_cache [(''42'', ana)] store0))
       = keys order_cache store0
   \<and> size_cache order_cache (fst (set_all sample_JSON user_cache [(''42'', ana)] store0))
       = size_cache order_cache store0
   \<and> asyncIterator sample_JSON order_cache (fst (set_all sample_JSON user_cache [(''42'', ana)] store0))
       = asyncIterator sample_JSON order_cache store0"
proof -
  have h1: "take (length (prefix (opts user_cache))) (prefix (opts order_cache))
              \<noteq> prefix (opts user_cache)"
    by (simp add: user_cache_def order_cache_def user_opts_def)
  have h2: "take (length (prefix (opts order_cache))) (prefix (opts user_cache))
              \<noteq> prefix (opts order_cache)"
    by (simp add: user_cache_def order_cache_def user_opts_def)
  have m: "\<forall>k. pattern_match store0 (prefix (opts order_cache) @ ''*'') k
            = (take (length (prefix (opts order_cache))) k = prefix (opts order_cache))"
    by (simp add: store0_def literal_match_star)
  then have h3: "\<forall>k. pattern_match store0 (prefix (opts order_cache) @ ''*'') k
            \<longrightarrow> take (length (prefix (opts order_cache))) k = prefix (opts order_cache)"
    by simp
  show ?thesis
    using h1 h2 m
      isolation_incomparable_prefixes [OF h1 h2 h3, of sample_JSON "''42''" "[(''42'', ana)]"]
    by blast
qed

text \<open>
  Claim C5, counterexample: with \<open>ttl = 0\<close> the construction fails with \<open>UNEXPECTED_TTL\<close>,
  and one client handle has been created all the same: \<open>new\<close> calls \<open>createClient\<close> before
  it runs the constructor that checks the ttl.
\<close>

theorem new_bad_ttl_counterexample:
  "fst (new (user_opts\<lparr>ttl := Num 0\<rparr>) [] []) = Inl UNEXPECTED_TTL
   \<and> snd (new (user_opts\<lparr>ttl := Num 0\<rparr>) [] []) = [Client []]
   \<and> snd (new (user_opts\<lparr>ttl := Num 0\<rparr>) [] []) \<noteq> []"
  by (simp add: new_def constructor_def createClient_def)

text \<open>
  Claim C5 as amended (TTL rejection at construction): when the ttl is at most zero or is
  NaN, \<open>new\<close> fails with \<open>UNEXPECTED_TTL\<close> and returns no cache; by then it has created
  exactly one store client handle.
\<close>

theorem new_rejects_bad_ttl:
  "le_zero (ttl os) \<or> Number_isNaN (ttl os) \<Longrightarrow>
     new os redisOpts handles = (Inl UNEXPECTED_TTL, handles @ [createClient redisOpts])"
  by (simp add: new_def constructor_def Let_def)

text \<open>Claim C5, witness: the three ttl values of the claim, 0, -5 and NaN.\<close>

theorem new_rejects_bad_ttl_witness:
  "new (user_opts\<lparr>ttl := Num 0\<rparr>) [] [] = (Inl UNEXPECTED_TTL, [createClient []])
   \<and> new (user_opts\<lparr>ttl := Num (- 5)\<rparr>) [] [] = (Inl UNEXPECTED_TTL, [createClient []])
   \<and> new (user_opts\<lparr>ttl := NaN\<rparr>) [] [] = (Inl UNEXPECTED_TTL, [createClient []])"
  using new_rejects_bad_ttl [of "user_opts\<lparr>ttl := Num 0\<rparr>" "[]" "[]"]
    new_rejects_bad_ttl [of "user_opts\<lparr>ttl := Num (- 5)\<rparr>" "[]" "[]"]
    new_rejects_bad_ttl [of "user_opts\<lparr>ttl := NaN\<rparr>" "[]" "[]"]
  by simp

text \<open>
  Claim C6, counterexample: \<open>keys()\<close> and \<open>size()\<close> send the prefix to the store as part of
  the pattern, unescaped. With the prefix \<open>user[1]:\<close> on a store that matches glob patterns,
  \<open>set("42", ...)\<close> succeeds on the empty store and \<open>get("42")\<close> returns the value, yet the
  pattern \<open>user[1]:*\<close> does not match the key \<open>user[1]:42\<close>: \<open>size()\<close> is 0, not 1, and
  \<open>keys()\<close> yields nothing.
\<close>

theorem enumeration_glob_counterexample:
  "online glob_store \<and> db glob_store = [] \<and> distinct (map fst [(''42'', ana)])
   \<and> set_all sample_JSON bracket_cache [(''42'', ana)] glob_store
       = (glob_store\<lparr>db := [(''user[1]:42'', ana_text)]\<rparr>, None)
   \<and> get sample_JSON bracket_cache ''42'' (glob_store\<lparr>db := [(''user[1]:42'', ana_text)]\<rparr>)
       = Inr (Some ana)
   \<and> size_cache bracket_cache (glob_store\<lparr>db := [(''user[1]:42'', ana_text)]\<rparr>) = Inr 0
   \<and> size_cache bracket_cache (glob_store\<lparr>db := [(''user[1]:42'', ana_text)]\<rparr>)
       \<noteq> Inr (length [(''42'', ana)])
   \<and> keys bracket_cache (glob_store\<lparr>db := [(''user[1]:42'', ana_text)]\<rparr>) = ([], None)"
proof -
  let ?s = "glob_store\<lparr>db := [(''user[1]:42'', ana_text)]\<rparr>"
  have a: "set_all sample_JSON bracket_cache [(''42'', ana)] glob_store = (?s, None)"
    by (simp add: set_cache_def client_set_def sample_JSON_def bracket_cache_def user_opts_def
        glob_store_def)
  have b: "get sample_JSON bracket_cache ''42'' ?s = Inr (Some ana)"
    by (simp add: get_def client_get_def sample_JSON_def bracket_cache_def user_opts_def
        glob_store_def ana_text_def ana_def)
  have m: "\<not> glob_match ''user[1]:*'' ''user[1]:42''"
    by simp
  have c: "size_cache bracket_cache ?s = Inr 0"
    using m by (simp add: size_cache_def client_keys_def bracket_cache_def user_opts_def
        glob_store_def)
  have d: "keys bracket_cache ?s = ([], None)"
    using m by (simp add: keys_def client_scanIterator_def bracket_cache_def user_opts_def
        glob_store_def)
  show ?thesis using a b c d by (simp add: glob_store_def)
qed

text \<open>
  Claim C6 as amended (enumeration completeness): on a reachable store that matches the
  pattern of the cache, prefix followed by \<open>*\<close>, against exactly the keys that start with
  the prefix, and that holds no key of this namespace yet, setting N distinct ids with
  encodable values succeeds, after which \<open>size()\<close> is N and \<open>keys()\<close> yields N pairwise
  different ids, namely the ids that were set, each without the prefix.
\<close>

theorem enumeration_complete:
  assumes "online s"
    and "\<forall>k. pattern_match s (prefix (opts c) @ ''*'') k
            = (take (length (prefix (opts c))) k = prefix (opts c))"
    and "\<forall>k \<in> set (map fst (db s)). take (length (prefix (opts c))) k \<noteq> prefix (opts c)"
    and "distinct (map fst ivs)"
    and "\<forall>v \<in> set (map snd ivs). \<exists>enc. stringify J v = Inr enc"
  shows "\<exists>s' ks. set_all J c ivs s = (s', None)
           \<and> size_cache c s' = Inr (length ivs)
           \<and> keys c s' = (ks, None)
           \<and> length ks = length ivs \<and> distinct ks \<and> set ks = set (map fst ivs)"
proof -
  let ?p = "prefix (opts c)"
  have fresh: "\<forall>i \<in> set (map fst ivs). ?p @ i \<notin> set (map fst (db s))"
  proof
    fix i assume "i \<in> set (map fst ivs)"
    have "take (length ?p) (?p @ i) = ?p" by simp
    then show "?p @ i \<notin> set (map fst (db s))" using assms(3) by blast
  qed
  from set_all_fresh_keys [OF assms(1) assms(5) assms(4) fresh]
  obtain s' where s': "set_all J c ivs s = (s', None)" "online s'"
      "pattern_match s' = pattern_match s"
      "map fst (db s') = map fst (db s) @ map (\<lambda>i. ?p @ i) (map fst ivs)"
    by blast
  have old: "filter (pattern_match s (?p @ ''*'')) (map fst (db s)) = []"
    using assms(2,3) by (simp add: filter_empty_conv)
  have new: "filter (pattern_match s (?p @ ''*'')) (map (\<lambda>i. ?p @ i) (map fst ivs))
               = map (\<lambda>i. ?p @ i) (map fst ivs)"
    using assms(2) by (simp add: filter_id_conv)
  have scan: "filter (pattern_match s' (?p @ ''*'')) (map fst (db s'))
               = map (\<lambda>i. ?p @ i) (map fst ivs)"
    using old new by (simp only: s'(3) s'(4) filter_append append_Nil)
  have sz: "size_cache c s' = Inr (length ivs)"
    unfolding size_cache_def client_keys_def Let_def scan using s'(2) by simp
  have "map (drop (length ?p)) (map (\<lambda>i. ?p @ i) (map fst ivs)) = map fst ivs"
    by (simp add: comp_def)
  then have ks: "keys c s' = (map fst ivs, None)"
    unfolding keys_def client_scanIterator_def Let_def scan using s'(2) by simp
  show ?thesis using s'(1) sz ks assms(4) by simp
qed

text \<open>
  Claim C6, witness: three ids set under the plain prefix \<open>user:\<close> on a store that matches
  glob patterns and already holds an entry of the namespace \<open>order:\<close>.
\<close>

theorem enumeration_complete_witness:
  "online (glob_store\<lparr>db := [(''order:1'', ''5'')]\<rparr>)
   \<and> (\<forall>k. pattern_match (glob_store\<lparr>db := [(''order:1'', ''5'')]\<rparr>) (prefix (opts user_cache) @ ''*'') k
            = (take (length (prefix (opts user_cache))) k = prefix (opts user_cache)))
   \<and> take (length (prefix (opts user_cache))) ''order:1'' \<noteq> prefix (opts user_cache)
   \<and> distinct (map fst [(''42'', ana), (''7'', JNull), (''8'', ana)])
   \<and> stringify sample_JSON ana = Inr ana_text
   \<and> stringify sample_JSON JNull = Inr ''null''
   \<and> (\<exists>s' ks. set_all sample_JSON user_cache [(''42'', ana), (''7'', JNull), (''8'', ana)]
                  (glob_store\<lparr>db := [(''order:1'', ''5'')]\<rparr>) = (s', None)
           \<and> size_cache user_cache s' = Inr 3
           \<and> keys user_cache s' = (ks, None)
           \<and> length ks = 3 \<and> distinct ks \<and> set ks = {''42'', ''7'', ''8''})"
proof -
  let ?s = "glob_store\<lparr>db := [(''order:1'', ''5'')]\<rparr>"
  let ?ivs = "[(''42'', ana), (''7'', JNull), (''8'', ana)]"
  have h1: "online ?s" by (simp add: glob_store_def)
  have h2: "\<forall>k. pattern_match ?s (prefix (opts user_cache) @ ''*'') k
            = (take (length (prefix (opts user_cache))) k = prefix (opts user_cache))"
  proof -
    have "plain (prefix (opts user_cache))"
      by (simp add: plain_def user_cache_def user_opts_def)
    then show ?thesis by (simp add: glob_store_def glob_plain_prefix)
  qed
  have h3: "\<forall>k \<in> set (map fst (db ?s)).
          take (length (prefix (opts user_cache))) k \<noteq> prefix (opts user_cache)"
    by (simp add: glob_store_def user_cache_def user_opts_def)
  have h4: "distinct (map fst ?ivs)" by simp
  have h5: "\<forall>v \<in> set (map snd ?ivs). \<exists>enc. stringify sample_JSON v = Inr enc"
    by (simp add: sample_JSON_def ana_def)
  have e1: "stringify sample_JSON ana = Inr ana_text"
    by (simp add: sample_JSON_def)
  have e2: "stringify sample_JSON JNull = Inr ''null''"
    by (simp add: sample_JSON_def ana_def)
  show ?thesis
    using h1 h2 h3 h4 e1 e2 enumeration_complete [OF h1 h2 h3 h4 h5]
    by (simp add: numeral_3_eq_3)
qed

text \<open>
  Claim C7 (absence): whenever the store reports the physical key of an id absent,
  \<open>get(id)\<close> returns the absent value, which is no error of any kind.
\<close>

theorem get_absent:
  "client_get s (prefix (opts c) @ ident) = Inr None \<Longrightarrow>
     get J c ident s = Inr None \<and> (\<forall>e. get J c ident s \<noteq> Inl e)"
  by (simp add: get_def)

text \<open>Claim C7, witness: \<open>get("42")\<close> on an empty store.\<close>

theorem get_absent_witness:
  "client_get store0 (prefix (opts user_cache) @ ''42'') = Inr None
   \<and> get sample_JSON user_cache ''42'' store0 = Inr None
   \<and> (\<forall>e. get sample_JSON user_cache ''42'' store0 \<noteq> Inl e)"
proof -
  have h: "client_get store0 (prefix (opts user_cache) @ ''42'') = Inr None"
    by (simp add: client_get_def store0_def)
  show ?thesis
    using h get_absent [OF h, of sample_JSON] by simp
qed

text \<open>
  Claim C8: \<open>has(id)\<close> returns true exactly when the existence probe of the store for the
  physical key reports 1. It takes no codec, and its result depends neither on the
  validator of the cache nor on the payloads held by the store, so it decodes and
  validates nothing.
\<close>

theorem has_iff_exists_one:
  "(has c ident s = Inr True) = (client_exists s (prefix (opts c) @ ident) = Inr 1)
   \<and> has (c\<lparr>schemaCompiler := chk\<rparr>) ident s = has c ident s
   \<and> has c ident (s\<lparr>db := map (\<lambda>e. (fst e, f (snd e))) (db s)\<rparr>) = has c ident s"
  by (auto simp add: has_def client_exists_def comp_def split: sum.splits)

text \<open>Claim C8, witness: one entry under \<open>user:42\<close>; \<open>has("42")\<close> is true, \<open>has("7")\<close> false.\<close>

theorem has_iff_exists_one_witness:
  "has user_cache ''42'' (store0\<lparr>db := [(''user:42'', ana_text)]\<rparr>) = Inr True
   \<and> client_exists (store0\<lparr>db := [(''user:42'', ana_text)]\<rparr>) (prefix (opts user_cache) @ ''42'') = Inr 1
   \<and> has user_cache ''7'' (store0\<lparr>db := [(''user:42'', ana_text)]\<rparr>) = Inr False"
proof -
  let ?s = "store0\<lparr>db := [(''user:42'', ana_text)]\<rparr>"
  have e: "client_exists ?s (prefix (opts user_cache) @ ''42'') = Inr 1"
    by (simp add: client_exists_def store0_def user_cache_def user_opts_def)
  have "has user_cache ''42'' ?s = Inr True"
    using has_iff_exists_one [of user_cache "''42''" ?s] e by blast
  moreover have "has user_cache ''7'' ?s = Inr False"
    by (simp add: has_def client_exists_def store0_def user_cache_def user_opts_def)
  ultimately show ?thesis using e by simp
qed

text \<open>
  Claim C9 (idempotent delete): whenever the deletion request for the physical key
  completes, whatever count the store reports, \<open>delete(id)\<close> returns true; on the store
  it leaves, \<open>has(id)\<close> is false and a second \<open>delete(id)\<close> returns true again.
\<close>

theorem delete_idempotent:
  "client_del s [prefix (opts c) @ ident] = Inr (n, s1) \<Longrightarrow>
     delete c ident s = Inr (True, s1)
     \<and> has c ident s1 = Inr False
     \<and> (\<exists>s2. delete c ident s1 = Inr (True, s2))"
  by (auto simp add: delete_def has_def client_del_def client_exists_def split: if_splits)

text \<open>Claim C9, witness: deleting the only entry of a store.\<close>

theorem delete_idempotent_witness:
  "client_del (store0\<lparr>db := [(''user:42'', ana_text)]\<rparr>) [prefix (opts user_cache) @ ''42'']
     = Inr (1, store0)
   \<and> delete user_cache ''42'' (store0\<lparr>db := [(''user:42'', ana_text)]\<rparr>) = Inr (True, store0)
   \<and> has user_cache ''42'' store0 = Inr False
   \<and> (\<exists>s2. delete user_cache ''42'' store0 = Inr (True, s2))"
proof -
  have h: "client_del (store0\<lparr>db := [(''user:42'', ana_text)]\<rparr>) [prefix (opts user_cache) @ ''42'']
     = Inr (1, store0)"
    by (simp add: client_del_def store0_def user_cache_def user_opts_def)
  show ?thesis
    using h delete_idempotent [OF h] by simp
qed



end
